theory Spec2Isabelle
  imports Main
begin

section \<open>Data model of \<open>bgmi/lib/controllers.py\<close>\<close>

text \<open>
  The controllers work on rows of the tables \<open>Bangumi\<close>, \<open>Followed\<close> and \<open>Download\<close>
  and on \<open>Episode\<close> values returned by the website.  Several classes share attribute
  names (\<open>episode\<close>, \<open>name\<close>, \<open>status\<close>, ...); a record field is a constant, so every
  field carries the initial of its class: \<open>e_episode\<close> is \<open>Episode.episode\<close>,
  \<open>f_episode\<close> is \<open>Followed.episode\<close> (the watermark), \<open>b_name\<close> is \<open>Bangumi.name\<close>,
  \<open>d_episode\<close> is \<open>Download.episode\<close>.  Python's integers are \<open>int\<close>.  The only
  reads of \<open>updated_time\<close> (lines 310 and 316) first test its truthiness, which is false
  for \<open>None\<close> and for \<open>0\<close> alike; \<open>f_updated_time = 0\<close> stands for both.
\<close>

record Episode =
  e_name :: string
  e_title :: string
  e_download :: string
  e_episode :: int

record Bangumi =
  b_name :: string
  b_subtitle_group :: "string list"

record Followed =
  f_bangumi_name :: string
  f_episode :: int
  f_status :: int
  f_updated_time :: int
  f_subtitle :: "string list"
  f_include :: "string list"
  f_exclude :: "string list"
  f_regex :: string

record Download =
  d_bangumi_name :: string
  d_episode :: int
  d_status :: int
  d_download :: string
  d_title :: string

text \<open>
  Modelled from the spec: the status codes are class attributes of \<open>bgmi.lib.table\<close>,
  which is not among the sources.  The spec names the three subscription states
  FOLLOWED, UPDATED and DELETED and says that a legal status code is "non-zero"; the codes
  below are pairwise distinct, and only \<open>STATUS_DELETED\<close> is zero.
\<close>

definition STATUS_DELETED :: int where
  "STATUS_DELETED = 0"

definition STATUS_FOLLOWED :: int where
  "STATUS_FOLLOWED = 1"

definition STATUS_UPDATED :: int where
  "STATUS_UPDATED = 2"

definition FOLLOWED_STATUS :: "int list" where
  "FOLLOWED_STATUS = [STATUS_DELETED, STATUS_FOLLOWED, STATUS_UPDATED]"

definition STATUS_DOWNLOADING :: int where
  "STATUS_DOWNLOADING = 1"

text \<open>The exceptions the controllers raise, catch or let through.\<close>

datatype exn =
    NotFoundError
  | ConnectionError string
  | OtherException string

fun str_exn :: "exn \<Rightarrow> string" where
  "str_exn NotFoundError = []"
| "str_exn (ConnectionError m) = m"
| "str_exn (OtherException m) = m"

section \<open>Reconciliation: lines 378--398 of \<open>update\<close>\<close>

text \<open>
  \<open>itertools.groupby(xs, key)\<close> yields one pair per maximal run of consecutive elements
  with the same key, in order.
\<close>

function groupby :: "('a \<Rightarrow> 'k) \<Rightarrow> 'a list \<Rightarrow> ('k \<times> 'a list) list" where
  "groupby key [] = []"
| "groupby key (x # xs) =
     (key x, x # takeWhile (\<lambda>y. key y = key x) xs)
       # groupby key (dropWhile (\<lambda>y. key y = key x) xs)"
  by pat_completeness auto
termination
  by (relation "measure (\<lambda>(key, xs). length xs)") (auto simp: length_dropWhile_le le_imp_less_Suc)

text \<open>
  The dict comprehension \<open>{key: list(value) for key, value in ...}\<close> inserts the pairs in
  order, so a later run with the same key replaces an earlier one.
\<close>

definition dict_of :: "('k \<times> 'v) list \<Rightarrow> ('k \<rightharpoonup> 'v)" where
  "dict_of kvs = fold (\<lambda>(k, v) m. m(k \<mapsto> v)) kvs Map.empty"

text \<open>
  \<open>max(e.episode for e in all_episode_data)\<close> if the list is non-empty, else \<open>0\<close>
  (lines 378--381).
\<close>

definition maximum_episode :: "Episode list \<Rightarrow> int" where
  "maximum_episode all_episode_data =
     (if all_episode_data \<noteq> [] then Max (set (map e_episode all_episode_data)) else 0)"

text \<open>
  The loop of lines 395--398: for each \<open>i\<close> of the range, \<open>groups.get(i)\<close>; a non-empty
  list gives its last element (\<open>episodes.pop()\<close>), appended to the queue.
\<close>

fun collect :: "(int \<rightharpoonup> Episode list) \<Rightarrow> int list \<Rightarrow> Episode list \<Rightarrow> Episode list" where
  "collect groups [] download_queue = download_queue"
| "collect groups (i # episode_range) download_queue =
     (case groups i of
        None \<Rightarrow> collect groups episode_range download_queue
      | Some episodes \<Rightarrow>
          if episodes \<noteq> [] then collect groups episode_range (download_queue @ [last episodes])
          else collect groups episode_range download_queue)"

text \<open>
  \<open>reconcile subscribe followed_obj all_episode_data t\<close> is the body of lines 378--398 for
  one subscription: \<open>subscribe\<close> is the row read before the loop, \<open>followed_obj\<close> the row
  read again inside it, \<open>t\<close> the reading of \<open>int(time.time())\<close> at line 388.  The first
  component is the row handed to \<open>save()\<close>, if any; the second is \<open>download_queue\<close>.
  \<open>range(a, b + 1)\<close> is \<open>[a..b]\<close>.
\<close>

definition reconcile ::
  "Followed \<Rightarrow> Followed \<Rightarrow> Episode list \<Rightarrow> int \<Rightarrow> Followed option \<times> Episode list" where
  "reconcile subscribe followed_obj all_episode_data t =
     (let episode = maximum_episode all_episode_data in
      if episode > f_episode subscribe then
        (Some (followed_obj\<lparr>f_episode := episode, f_status := STATUS_UPDATED,
                 f_updated_time := t\<rparr>),
         collect (dict_of (groupby e_episode all_episode_data))
           [f_episode subscribe + 1 .. episode] [])
      else (None, []))"

section \<open>The tables and the external collaborators\<close>

text \<open>
  The controllers read and write three tables: the catalogue (\<open>Bangumi\<close>), the
  subscriptions (\<open>Followed\<close>) and the rows the scripts keep for themselves
  (\<open>script.Model().obj\<close>, with the same attributes \<open>bangumi_name\<close>, \<open>episode\<close>,
  \<open>status\<close> and \<open>updated_time\<close> as a subscription, so the same record is used).
\<close>

record db =
  bangumi_table :: "Bangumi list"
  followed_table :: "Followed list"
  script_table :: "Followed list"

text \<open>
  Modelled from the spec: the class \<open>Followed\<close> of \<open>bgmi.lib.table\<close> is not among the
  sources.  The spec gives the store as \<open>get(series) -> Subscription | NotFound\<close>,
  \<open>upsert(subscription)\<close> and \<open>list_active()\<close>, with one subscription per series.
  \<open>Followed.get(Followed.bangumi_name == name)\<close> is \<open>Followed_get\<close>: \<open>None\<close> stands for
  the \<open>NotFoundError\<close> it raises, which the callers in \<open>controllers.py\<close> catch.
  \<open>obj.save()\<close> is \<open>Followed_save\<close>: the row replaces the one stored under its
  \<open>bangumi_name\<close>, or is added.  \<open>Followed.get_all_followed()\<close> lists the rows that are
  not \<open>DELETED\<close>.
\<close>

definition Followed_get :: "Followed list \<Rightarrow> string \<Rightarrow> Followed option" where
  "Followed_get tbl name = find (\<lambda>f. f_bangumi_name f = name) tbl"

fun Followed_save :: "Followed \<Rightarrow> Followed list \<Rightarrow> Followed list" where
  "Followed_save obj [] = [obj]"
| "Followed_save obj (f # tbl) =
     (if f_bangumi_name f = f_bangumi_name obj then obj # tbl else f # Followed_save obj tbl)"

definition get_all_followed :: "Followed list \<Rightarrow> Followed list" where
  "get_all_followed tbl = filter (\<lambda>f. f_status f \<noteq> STATUS_DELETED) tbl"

text \<open>\<open>Bangumi.get(Bangumi.name == name)\<close>, with \<open>None\<close> for \<open>NotFoundError\<close>.\<close>

definition Bangumi_get :: "Bangumi list \<Rightarrow> string \<Rightarrow> Bangumi option" where
  "Bangumi_get tbl name = find (\<lambda>b. b_name b = name) tbl"

text \<open>
  Modelled from the spec: \<open>Followed(status=..., bangumi_name=..., episode=0)\<close> at line 56
  leaves the other columns to the defaults of \<open>bgmi.lib.table\<close>; the spec's new
  subscription has no \<open>updated_time\<close> yet and no filter.
\<close>

definition new_followed :: "string \<Rightarrow> Followed" where
  "new_followed name =
     \<lparr>f_bangumi_name = name, f_episode = 0, f_status = STATUS_FOLLOWED, f_updated_time = 0,
      f_subtitle = [], f_include = [], f_exclude = [], f_regex = []\<rparr>"

text \<open>
  What the controllers call outside this file is a parameter: the website
  (\<open>bgmi.lib.fetch.website\<close>), the catalogue queries that are not a plain lookup by name,
  \<open>episode_filter_regex\<close>, \<open>Episode.remove_duplicated_bangumi\<close>,
  \<open>Followed.delete_followed\<close>, the failed downloads, the script runner, the process
  environment and the clock.  A call that can raise returns \<open>Inl\<close> of the exception.
  \<open>time_now\<close> is the reading of \<open>time.time()\<close> at line 307, \<open>time_updated name\<close> the
  reading at line 388 while the series \<open>name\<close> is updated.
\<close>

record env =
  get_updating_bangumi :: "Bangumi list \<Rightarrow> Bangumi list"
  website_fetch :: "Bangumi list \<Rightarrow> exn + Bangumi list"
  Bangumi_get_contains :: "Bangumi list \<Rightarrow> string \<Rightarrow> Bangumi option"
  get_maximum_episode :: "Bangumi \<Rightarrow> bool option \<Rightarrow> exn + Episode list"
  search_by_tag :: "string \<Rightarrow> string option \<Rightarrow> int \<Rightarrow> exn + Episode list"
  search_by_keyword :: "string \<Rightarrow> int \<Rightarrow> exn + Episode list"
  episode_filter_regex :: "Episode list \<Rightarrow> string option \<Rightarrow> exn + Episode list"
  remove_duplicated_bangumi :: "Episode list \<Rightarrow> exn + Episode list"
  delete_followed :: "bool \<Rightarrow> Followed list \<Rightarrow> bool \<times> Followed list"
  failed_downloads :: "Download list"
  runner_run :: "Episode list"
  environ_DEBUG :: bool
  time_now :: int
  time_updated :: "string \<Rightarrow> int"

text \<open>A \<open>ControllerResult\<close> is a dict from keys to strings; \<open>{}\<close> is the empty map.\<close>

type_synonym ControllerResult = "string \<rightharpoonup> string"

text \<open>\<open>str(n)\<close> and the \<open>{n}\<close> of an f-string, for an integer.\<close>

function digits :: "nat \<Rightarrow> string" where
  "digits n = (if n < 10 then [char_of (48 + n)] else digits (n div 10) @ [char_of (48 + n mod 10)])"
  by pat_completeness auto
termination
  by (relation "measure id") auto

declare digits.simps [simp del]

definition str_int :: "int \<Rightarrow> string" where
  "str_int i = (if i < 0 then CHR ''-'' # digits (nat (- i)) else digits (nat i))"

section \<open>\<open>add\<close>\<close>

text \<open>
  Lines 68--78: the watermark is set from the website when no episode is given (the fetch
  can raise), the row is saved and the success result returned.  The database \<open>st\<close> is
  the one after the \<open>with Session.begin()\<close> block of lines 51--66 has committed.
\<close>

definition add_episode ::
  "env \<Rightarrow> db \<Rightarrow> Bangumi \<Rightarrow> Followed \<Rightarrow> int option \<Rightarrow> (exn + ControllerResult) \<times> db" where
  "add_episode env st bangumi_obj followed_obj episode =
     (case (case episode of
              None \<Rightarrow>
                (case get_maximum_episode env bangumi_obj None of
                   Inl e \<Rightarrow> Inl e
                 | Inr episodes \<Rightarrow> Inr (maximum_episode episodes))
            | Some n \<Rightarrow> Inr n) of
        Inl e \<Rightarrow> (Inl e, st)
      | Inr n \<Rightarrow>
          (Inr [''status'' \<mapsto> ''success'',
                ''message'' \<mapsto> ''add '' @ b_name bangumi_obj @ '' to subscribing bangumi list''],
           st\<lparr>followed_table := Followed_save (followed_obj\<lparr>f_episode := n\<rparr>) (followed_table st)\<rparr>))"

text \<open>
  Lines 38--39: \<open>if not Bangumi.get_updating_bangumi(): website.fetch(...)\<close>.  The result
  is the catalogue the rest of \<open>add\<close> reads, or the exception of the fetch.
\<close>

definition fetch_if_empty :: "env \<Rightarrow> db \<Rightarrow> exn + Bangumi list" where
  "fetch_if_empty env st =
     (if get_updating_bangumi env (bangumi_table st) = [] then website_fetch env (bangumi_table st)
      else Inr (bangumi_table st))"

definition add :: "env \<Rightarrow> db \<Rightarrow> string \<Rightarrow> int option \<Rightarrow> (exn + ControllerResult) \<times> db" where
  "add env st name episode =
     (case fetch_if_empty env st of
        Inl e \<Rightarrow> (Inl e, st)
      | Inr catalogue \<Rightarrow>
          (case Bangumi_get_contains env catalogue name of
             None \<Rightarrow>
               (Inr [''status'' \<mapsto> ''error'',
                     ''message'' \<mapsto> name @ '' not found, please check the name''],
                st\<lparr>bangumi_table := catalogue\<rparr>)
           | Some bangumi_obj \<Rightarrow>
               (case Followed_get (followed_table st) (b_name bangumi_obj) of
                  None \<Rightarrow>
                    add_episode env
                      (st\<lparr>bangumi_table := catalogue,
                          followed_table := followed_table st @ [new_followed (b_name bangumi_obj)]\<rparr>)
                      bangumi_obj (new_followed (b_name bangumi_obj)) episode
                | Some followed_obj \<Rightarrow>
                    if f_status followed_obj = STATUS_FOLLOWED then
                      (Inr [''status'' \<mapsto> ''warning'',
                            ''message'' \<mapsto> b_name bangumi_obj @ '' already followed''],
                       st\<lparr>bangumi_table := catalogue\<rparr>)
                    else
                      add_episode env
                        (st\<lparr>bangumi_table := catalogue,
                            followed_table :=
                              Followed_save (followed_obj\<lparr>f_status := STATUS_FOLLOWED\<rparr>)
                                (followed_table st)\<rparr>)
                        bangumi_obj (followed_obj\<lparr>f_status := STATUS_FOLLOWED\<rparr>) episode)))"

section \<open>\<open>delete\<close>, \<open>mark\<close> and \<open>status_\<close>\<close>

definition delete :: "env \<Rightarrow> db \<Rightarrow> string \<Rightarrow> bool \<Rightarrow> bool \<Rightarrow> ControllerResult \<times> db" where
  "delete env st name clear_all batch =
     (if clear_all then
        (case delete_followed env batch (followed_table st) of
           (True, tbl) \<Rightarrow>
             ([''status'' \<mapsto> ''warning'', ''message'' \<mapsto> ''all subscriptions have been deleted''],
              st\<lparr>followed_table := tbl\<rparr>)
         | (False, tbl) \<Rightarrow> (Map.empty, st\<lparr>followed_table := tbl\<rparr>))
      else if name \<noteq> [] then
        (case Followed_get (followed_table st) name of
           Some followed \<Rightarrow>
             ([''status'' \<mapsto> ''warning'',
               ''message'' \<mapsto> ''Bangumi '' @ name @ '' has been deleted''],
              st\<lparr>followed_table :=
                   Followed_save (followed\<lparr>f_status := STATUS_DELETED\<rparr>) (followed_table st)\<rparr>)
         | None \<Rightarrow>
             ([''status'' \<mapsto> ''error'', ''message'' \<mapsto> ''Bangumi '' @ name @ '' does not exist''],
              st))
      else ([''status'' \<mapsto> ''warning'', ''message'' \<mapsto> ''Nothing has been done.''], st))"

text \<open>
  \<open>mark\<close>: when the name is not followed, \<open>runner.get_model(name)\<close> looks the name up
  among the scripts' rows.
\<close>

definition mark :: "db \<Rightarrow> string \<Rightarrow> int \<Rightarrow> ControllerResult \<times> db" where
  "mark st name episode =
     (case Followed_get (followed_table st) name of
        Some followed_obj \<Rightarrow>
          ([''status'' \<mapsto> ''success'',
            ''message'' \<mapsto> name @ '' has been mark as episode: '' @ str_int episode],
           st\<lparr>followed_table :=
                Followed_save (followed_obj\<lparr>f_episode := episode\<rparr>) (followed_table st)\<rparr>)
      | None \<Rightarrow>
          (case Followed_get (script_table st) name of
             None \<Rightarrow>
               ([''status'' \<mapsto> ''error'',
                 ''message'' \<mapsto> ''Subscribe or Script <'' @ name @ ''> does not exist.''],
                st)
           | Some followed_obj \<Rightarrow>
               ([''status'' \<mapsto> ''success'',
                 ''message'' \<mapsto> name @ '' has been mark as episode: '' @ str_int episode],
                st\<lparr>script_table :=
                     Followed_save (followed_obj\<lparr>f_episode := episode\<rparr>) (script_table st)\<rparr>)))"

text \<open>
  \<open>status_\<close> (an identifier cannot end in an underscore here, so the constant is
  \<open>status_change\<close>, the spec's name for the operation): the call of \<open>Followed.get\<close> at line 425 stands outside any \<open>try\<close>, so its
  \<open>NotFoundError\<close> leaves the function; the test \<open>if not followed_obj\<close> of line 426 only
  sees rows that were found, and a row is never falsy.
\<close>

definition status_change :: "db \<Rightarrow> string \<Rightarrow> int \<Rightarrow> (exn + ControllerResult) \<times> db" where
  "status_change st name status =
     (if status \<notin> set FOLLOWED_STATUS \<or> status = 0 then
        (Inr [''status'' \<mapsto> ''error'', ''message'' \<mapsto> ''Invalid status: '' @ str_int status], st)
      else
        (case Followed_get (followed_table st) name of
           None \<Rightarrow> (Inl NotFoundError, st)
         | Some followed_obj \<Rightarrow>
             (Inr [''status'' \<mapsto> ''success'',
                   ''message'' \<mapsto> ''Followed<'' @ name @ ''> has been marked as status '' @ str_int status],
              st\<lparr>followed_table :=
                   Followed_save (followed_obj\<lparr>f_status := status\<rparr>) (followed_table st)\<rparr>)))"

section \<open>\<open>search\<close>\<close>

record search_options =
  o_keyword :: string
  o_count :: int
  o_regex :: "string option"
  o_dupe :: bool
  o_min_episode :: "int option"
  o_max_episode :: "int option"

record search_result =
  s_status :: string
  s_message :: string
  s_options :: search_options
  s_data :: "Episode list"

text \<open>The body of the \<open>try\<close> (lines 258--270), up to the sorted list.\<close>

definition search_data ::
  "env \<Rightarrow> string \<Rightarrow> int \<Rightarrow> string option \<Rightarrow> bool \<Rightarrow> int option \<Rightarrow> int option \<Rightarrow> bool \<Rightarrow>
   string option \<Rightarrow> exn + Episode list" where
  "search_data env keyword count regex dupe min_episode max_episode tag subtitle =
     (case (if tag then search_by_tag env keyword subtitle count
            else search_by_keyword env keyword count) of
        Inl e \<Rightarrow> Inl e
      | Inr found \<Rightarrow>
          (case episode_filter_regex env found regex of
             Inl e \<Rightarrow> Inl e
           | Inr matched \<Rightarrow>
               (let above = (case min_episode of
                               None \<Rightarrow> matched
                             | Some lo \<Rightarrow> filter (\<lambda>x. e_episode x \<ge> lo) matched);
                    within = (case max_episode of
                                None \<Rightarrow> above
                              | Some hi \<Rightarrow> filter (\<lambda>x. e_episode x \<le> hi) above)
                in (case (if \<not> dupe then remove_duplicated_bangumi env within else Inr within) of
                      Inl e \<Rightarrow> Inl e
                    | Inr data \<Rightarrow> Inr (sort_key e_episode data)))))"

definition search ::
  "env \<Rightarrow> string \<Rightarrow> int \<Rightarrow> string option \<Rightarrow> bool \<Rightarrow> int option \<Rightarrow> int option \<Rightarrow> bool \<Rightarrow>
   string option \<Rightarrow> exn + search_result" where
  "search env keyword count regex dupe min_episode max_episode tag subtitle =
     (case search_data env keyword count regex dupe min_episode max_episode tag subtitle of
        Inr data \<Rightarrow>
          Inr \<lparr>s_status = ''success'', s_message = [],
               s_options = \<lparr>o_keyword = keyword, o_count = count, o_regex = regex, o_dupe = dupe,
                             o_min_episode = min_episode, o_max_episode = max_episode\<rparr>,
               s_data = data\<rparr>
      | Inl e \<Rightarrow>
          if environ_DEBUG env then Inl e
          else
            Inr \<lparr>s_status = ''error'', s_message = str_exn e,
                 s_options = \<lparr>o_keyword = keyword, o_count = count, o_regex = regex, o_dupe = dupe,
                               o_min_episode = min_episode, o_max_episode = max_episode\<rparr>,
                 s_data = []\<rparr>)"

section \<open>\<open>update\<close>\<close>

text \<open>
  Line 310: \<open>follow.updated_time and int(follow.updated_time + 60 * 60 * 24) < now\<close>.  An
  \<open>updated_time\<close> that is \<open>0\<close> is falsy.
\<close>

definition stale :: "int \<Rightarrow> Followed \<Rightarrow> bool" where
  "stale now follow =
     (f_updated_time follow \<noteq> 0 \<and> f_updated_time follow + 60 * 60 * 24 < now)"

text \<open>Lines 309--312, over the subscriptions, and lines 314--318, over the scripts' rows.\<close>

definition mark_followed :: "int \<Rightarrow> Followed list \<Rightarrow> Followed list" where
  "mark_followed now tbl =
     fold (\<lambda>follow t.
             if stale now follow then Followed_save (follow\<lparr>f_status := STATUS_FOLLOWED\<rparr>) t
             else t)
       (get_all_followed tbl) tbl"

definition mark_scripts :: "int \<Rightarrow> Followed list \<Rightarrow> Followed list" where
  "mark_scripts now tbl =
     map (\<lambda>obj. if stale now obj then obj\<lparr>f_status := STATUS_FOLLOWED\<rparr> else obj) tbl"

text \<open>The \<open>Download\<close> row built for an episode at lines 344--350 and 403--409.\<close>

definition to_download :: "Episode \<Rightarrow> Download" where
  "to_download x =
     \<lparr>d_bangumi_name = e_name x, d_episode = e_episode x, d_status = STATUS_DOWNLOADING,
      d_download = e_download x, d_title = e_title x\<rparr>"

text \<open>
  One turn of the loop of lines 356--412.  \<open>Inr (st', batches)\<close>: the loop goes on with the
  database \<open>st'\<close>, and \<open>batches\<close> are the lists handed to \<open>download_episodes\<close> in this turn
  (none after a \<open>continue\<close>).  \<open>Inl e\<close>: the exception \<open>e\<close> leaves \<open>update\<close>; only
  \<open>requests.exceptions.ConnectionError\<close> is caught around the fetch.
\<close>

definition update_one ::
  "env \<Rightarrow> bool \<Rightarrow> bool \<Rightarrow> Followed \<Rightarrow> db \<Rightarrow> exn + (db \<times> Download list list)" where
  "update_one env download ignore subscribe st =
     (case Bangumi_get (bangumi_table st) (f_bangumi_name subscribe) of
        None \<Rightarrow> Inr (st, [])
      | Some bangumi_obj \<Rightarrow>
          (case Followed_get (followed_table st) (f_bangumi_name subscribe) of
             None \<Rightarrow> Inr (st, [])
           | Some followed_obj \<Rightarrow>
               (case get_maximum_episode env bangumi_obj (Some ignore) of
                  Inl (ConnectionError e) \<Rightarrow> Inr (st, [])
                | Inl NotFoundError \<Rightarrow> Inl NotFoundError
                | Inl (OtherException e) \<Rightarrow> Inl (OtherException e)
                | Inr all_episode_data \<Rightarrow>
                    (case reconcile subscribe followed_obj all_episode_data
                            (time_updated env (f_bangumi_name subscribe)) of
                       (saved, download_queue) \<Rightarrow>
                         Inr ((case saved of
                                 None \<Rightarrow> st
                               | Some obj \<Rightarrow>
                                   st\<lparr>followed_table := Followed_save obj (followed_table st)\<rparr>),
                              if download then [map to_download download_queue] else [])))))"

fun update_loop ::
  "env \<Rightarrow> bool \<Rightarrow> bool \<Rightarrow> Followed list \<Rightarrow> db \<Rightarrow> Download list list \<Rightarrow>
   exn option \<times> db \<times> Download list list" where
  "update_loop env download ignore [] st out = (None, st, out)"
| "update_loop env download ignore (subscribe # updated_bangumi_obj) st out =
     (case update_one env download ignore subscribe st of
        Inl e \<Rightarrow> (Some e, st, out)
      | Inr (st', batches) \<Rightarrow>
          update_loop env download ignore updated_bangumi_obj st' (out @ batches))"

text \<open>
  \<open>update names download not_ignore\<close>.  The result is the exception that left the
  function, if any, the database, and the lists handed to \<open>download_episodes\<close>, in order.
\<close>

definition update ::
  "env \<Rightarrow> db \<Rightarrow> string list \<Rightarrow> bool \<Rightarrow> bool \<Rightarrow> exn option \<times> db \<times> Download list list" where
  "update env st names download not_ignore =
     update_loop env download (\<not> not_ignore)
       (if names = [] then get_all_followed (mark_followed (time_now env) (followed_table st))
        else List.map_filter (Followed_get (mark_followed (time_now env) (followed_table st))) names)
       (st\<lparr>followed_table := mark_followed (time_now env) (followed_table st),
           script_table := mark_scripts (time_now env) (script_table st)\<rparr>)
       ((if download \<and> failed_downloads env \<noteq> [] then [failed_downloads env] else []) @
        (if runner_run env \<noteq> [] \<and> download then [map to_download (runner_run env)] else []))"

section \<open>Example values\<close>

text \<open>
  The example of the spec: the series "Show A", followed with watermark 3; the website
  shows episode 4 twice (two subtitle groups) and episode 6.
\<close>

definition show_a :: Bangumi where
  "show_a = \<lparr>b_name = ''Show A'', b_subtitle_group = []\<rparr>"

definition sub_a :: Followed where
  "sub_a = \<lparr>f_bangumi_name = ''Show A'', f_episode = 3, f_status = STATUS_FOLLOWED,
            f_updated_time = 0, f_subtitle = [], f_include = [], f_exclude = [], f_regex = []\<rparr>"

definition ep4 :: Episode where
  "ep4 = \<lparr>e_name = ''Show A'', e_title = ''Show A 04'', e_download = ''magnet:4'', e_episode = 4\<rparr>"

definition ep4_alt :: Episode where
  "ep4_alt = \<lparr>e_name = ''Show A'', e_title = ''Show A 04 alt'', e_download = ''magnet:4b'',
              e_episode = 4\<rparr>"

definition ep6 :: Episode where
  "ep6 = \<lparr>e_name = ''Show A'', e_title = ''Show A 06'', e_download = ''magnet:6'', e_episode = 6\<rparr>"

definition observed_a :: "Episode list" where
  "observed_a = [ep4, ep4_alt, ep6]"

text \<open>
  An environment in which the catalogue is already loaded, the website shows
  \<open>observed_a\<close> for every series, a search finds the same episodes in another order, and
  nothing else happens.
\<close>

definition env_a :: env where
  "env_a =
     \<lparr>get_updating_bangumi = (\<lambda>catalogue. catalogue),
      website_fetch = (\<lambda>catalogue. Inr catalogue),
      Bangumi_get_contains = Bangumi_get,
      get_maximum_episode = (\<lambda>bangumi ignore. Inr observed_a),
      search_by_tag = (\<lambda>keyword subtitle count. Inr [ep6, ep4, ep4_alt]),
      search_by_keyword = (\<lambda>keyword count. Inr [ep6, ep4, ep4_alt]),
      episode_filter_regex = (\<lambda>data regex. Inr data),
      remove_duplicated_bangumi = (\<lambda>data. Inr data),
      delete_followed = (\<lambda>batch tbl. (False, tbl)),
      failed_downloads = [],
      runner_run = [],
      environ_DEBUG = False,
      time_now = 1000,
      time_updated = (\<lambda>name. 1000)\<rparr>"

definition db_a :: db where
  "db_a = \<lparr>bangumi_table = [show_a], followed_table = [sub_a], script_table = []\<rparr>"

text \<open>The website shows no episode at all.\<close>

definition env_quiet :: env where
  "env_quiet = env_a\<lparr>get_maximum_episode := (\<lambda>bangumi ignore. Inr [])\<rparr>"

text \<open>The website cannot be reached.\<close>

definition env_down :: env where
  "env_down = env_a\<lparr>get_maximum_episode := (\<lambda>bangumi ignore. Inl (ConnectionError ''unreachable''))\<rparr>"

text \<open>"Show A" after \<open>mark("Show A", -1)\<close>.\<close>

definition sub_neg :: Followed where
  "sub_neg = sub_a\<lparr>f_episode := - 1\<rparr>"

definition db_neg :: db where
  "db_neg = db_a\<lparr>followed_table := [sub_neg]\<rparr>"

text \<open>"Show A" is in the catalogue and nobody follows it.\<close>

definition db_new :: db where
  "db_new = db_a\<lparr>followed_table := []\<rparr>"

text \<open>"Show A" with new episodes surfaced at time 900, and after \<open>delete("Show A")\<close>.\<close>

definition sub_upd :: Followed where
  "sub_upd = sub_a\<lparr>f_status := STATUS_UPDATED, f_updated_time := 900\<rparr>"

definition db_upd :: db where
  "db_upd = db_a\<lparr>followed_table := [sub_upd]\<rparr>"

definition sub_del :: Followed where
  "sub_del = sub_a\<lparr>f_status := STATUS_DELETED\<rparr>"

definition db_del :: db where
  "db_del = db_a\<lparr>followed_table := [sub_del]\<rparr>"

text \<open>
  "Show A" set to \<open>UPDATED\<close> by \<open>status_("Show A", 2)\<close>: its \<open>updated_time\<close> is still the
  \<open>0\<close> of a row that was never updated.
\<close>

definition sub_never :: Followed where
  "sub_never = sub_a\<lparr>f_status := STATUS_UPDATED\<rparr>"

text \<open>
  A second series, "Show B", followed at episode 1 and \<open>UPDATED\<close> at time 87400, and its
  episode 2; "Show A" \<open>UPDATED\<close> at time 1000.  At time 91000 the former was updated one
  hour ago and the latter 25 hours ago.
\<close>

definition show_b :: Bangumi where
  "show_b = \<lparr>b_name = ''Show B'', b_subtitle_group = []\<rparr>"

definition sub_b :: Followed where
  "sub_b = \<lparr>f_bangumi_name = ''Show B'', f_episode = 1, f_status = STATUS_UPDATED,
            f_updated_time = 87400, f_subtitle = [], f_include = [], f_exclude = [], f_regex = []\<rparr>"

definition sub_old :: Followed where
  "sub_old = sub_a\<lparr>f_status := STATUS_UPDATED, f_updated_time := 1000\<rparr>"

definition ep_b2 :: Episode where
  "ep_b2 = \<lparr>e_name = ''Show B'', e_title = ''Show B 02'', e_download = ''magnet:b2'', e_episode = 2\<rparr>"

definition db_ab :: db where
  "db_ab = \<lparr>bangumi_table = [show_a, show_b], followed_table = [sub_a, sub_b], script_table = []\<rparr>"

text \<open>The website cannot be reached for "Show A" and shows episode 2 of "Show B".\<close>

definition env_partial :: env where
  "env_partial =
     env_a\<lparr>get_maximum_episode :=
             (\<lambda>bangumi ignore.
                if b_name bangumi = ''Show A'' then Inl (ConnectionError ''unreachable'')
                else Inr [ep_b2])\<rparr>"

text \<open>
  The fetch for "Show A" fails with an exception that is not a \<open>ConnectionError\<close> (a read
  that times out, \<open>requests.exceptions.ReadTimeout\<close>); "Show B" shows its episode 2.
\<close>

definition env_timeout :: env where
  "env_timeout =
     env_a\<lparr>get_maximum_episode :=
             (\<lambda>bangumi ignore.
                if b_name bangumi = ''Show A'' then Inl (OtherException ''read timed out'')
                else Inr [ep_b2])\<rparr>"

section \<open>The grouping of the observed episodes\<close>

lemma fold_upd_map_of: "fold (\<lambda>(k, v) m. m(k \<mapsto> v)) kvs m0 = m0 ++ map_of (rev kvs)"
  by (induction kvs arbitrary: m0) (auto simp: map_add_def fun_eq_iff split: option.splits)

lemma dict_of_Cons:
  "dict_of (kv # kvs) k =
     (case dict_of kvs k of Some v \<Rightarrow> Some v | None \<Rightarrow> (if fst kv = k then Some (snd kv) else None))"
  by (cases kv) (auto simp: dict_of_def fold_upd_map_of map_add_def split: option.splits)

lemma dict_of_Nil: "dict_of [] k = None"
  by (simp add: dict_of_def)

lemma filter_run_split:
  "filter P (x # xs) = filter P (x # takeWhile Q xs) @ filter P (dropWhile Q xs)"
proof -
  have "filter P (x # xs) = filter P ((x # takeWhile Q xs) @ dropWhile Q xs)" by simp
  then show ?thesis by (simp only: filter_append)
qed

lemma set_run_split: "set xs = set (takeWhile Q xs) \<union> set (dropWhile Q xs)"
proof -
  have "set xs = set (takeWhile Q xs @ dropWhile Q xs)" by simp
  then show ?thesis by (simp only: set_append)
qed

lemma dict_groupby_Cons:
  "dict_of (groupby key (x # xs)) k =
     (case dict_of (groupby key (dropWhile (\<lambda>y. key y = key x) xs)) k of
        Some v \<Rightarrow> Some v
      | None \<Rightarrow> if key x = k then Some (x # takeWhile (\<lambda>y. key y = key x) xs) else None)"
  by (simp add: dict_of_Cons split: option.splits)

text \<open>The first run is the whole group of its key when the key does not come back.\<close>

lemma step_none_eq:
  assumes "key x \<notin> key ` set (dropWhile (\<lambda>y. key y = key x) xs)"
  shows "filter (\<lambda>y. key y = key x) (x # xs) = x # takeWhile (\<lambda>y. key y = key x) xs"
proof -
  have none: "\<forall>y\<in>set (dropWhile (\<lambda>y. key y = key x) xs). \<not> key y = key x"
  proof
    fix y assume "y \<in> set (dropWhile (\<lambda>y. key y = key x) xs)"
    then have img: "key y \<in> key ` set (dropWhile (\<lambda>y. key y = key x) xs)" by (rule imageI)
    show "\<not> key y = key x"
    proof
      assume "key y = key x"
      with img have "key x \<in> key ` set (dropWhile (\<lambda>y. key y = key x) xs)" by (simp only:)
      with assms show False by (rule notE)
    qed
  qed
  have all: "\<forall>y\<in>set (x # takeWhile (\<lambda>y. key y = key x) xs). key y = key x"
  proof
    fix y assume "y \<in> set (x # takeWhile (\<lambda>y. key y = key x) xs)"
    then have "y = x \<or> y \<in> set (takeWhile (\<lambda>y. key y = key x) xs)" by simp
    then show "key y = key x"
    proof
      assume "y = x" then show ?thesis by (simp only:)
    next
      assume "y \<in> set (takeWhile (\<lambda>y. key y = key x) xs)"
      then show ?thesis by (rule set_takeWhileD[THEN conjunct2])
    qed
  qed
  have a: "filter (\<lambda>y. key y = key x) (dropWhile (\<lambda>y. key y = key x) xs) = []"
    unfolding filter_empty_conv by (rule none)
  have b: "filter (\<lambda>y. key y = key x) (x # takeWhile (\<lambda>y. key y = key x) xs)
      = x # takeWhile (\<lambda>y. key y = key x) xs"
    unfolding filter_id_conv by (rule all)
  show ?thesis
    by (subst filter_run_split[of _ x xs "\<lambda>y. key y = key x"]) (simp only: a b append_Nil2)
qed

lemma step_none_neq:
  assumes "k \<notin> key ` set (dropWhile (\<lambda>y. key y = key x) xs)" "key x \<noteq> k"
  shows "k \<notin> key ` set (x # xs)"
proof
  assume "k \<in> key ` set (x # xs)"
  with assms(2) obtain y where y: "y \<in> set xs" "key y = k" by auto
  from y(1) have "y \<in> set (takeWhile (\<lambda>y. key y = key x) xs) \<or> y \<in> set (dropWhile (\<lambda>y. key y = key x) xs)"
    using set_run_split[of xs "\<lambda>y. key y = key x"] by blast
  then show False
  proof
    assume "y \<in> set (takeWhile (\<lambda>y. key y = key x) xs)"
    then have "key y = key x" by (rule set_takeWhileD[THEN conjunct2])
    with y(2) assms(2) show False by simp
  next
    assume "y \<in> set (dropWhile (\<lambda>y. key y = key x) xs)"
    with y(2) assms(1) show False by blast
  qed
qed

lemma step_some:
  assumes "k \<in> key ` set (dropWhile Q xs)"
  shows "last (filter (\<lambda>y. key y = k) (x # xs)) = last (filter (\<lambda>y. key y = k) (dropWhile Q xs))
     \<and> k \<in> key ` set (x # xs)"
proof
  from assms have ne: "filter (\<lambda>y. key y = k) (dropWhile Q xs) \<noteq> []" by (auto simp: filter_empty_conv)
  show "last (filter (\<lambda>y. key y = k) (x # xs)) = last (filter (\<lambda>y. key y = k) (dropWhile Q xs))"
    by (subst filter_run_split[of _ x xs Q]) (simp only: last_appendR[OF ne])
  from assms obtain y where "y \<in> set (dropWhile Q xs)" "key y = k" by auto
  then have "y \<in> set xs" "key y = k" by (auto dest: set_dropWhileD)
  then show "k \<in> key ` set (x # xs)" by auto
qed

lemma lookup_some:
  "d = Some es \<Longrightarrow> es \<noteq> [] \<Longrightarrow> last es = l \<Longrightarrow> kin \<Longrightarrow>
   (d = None \<longleftrightarrow> \<not> kin) \<and> (\<forall>es'. d = Some es' \<longrightarrow> es' \<noteq> [] \<and> last es' = l)"
  by simp

lemma lookup_none:
  "d = None \<Longrightarrow> \<not> kin \<Longrightarrow>
   (d = None \<longleftrightarrow> \<not> kin) \<and> (\<forall>es'. d = Some es' \<longrightarrow> es' \<noteq> [] \<and> last es' = l)"
  by simp

lemma lookup_someD:
  "(d = None \<longleftrightarrow> \<not> kin) \<and> (\<forall>es'. d = Some es' \<longrightarrow> es' \<noteq> [] \<and> last es' = l) \<Longrightarrow>
   d = Some es \<Longrightarrow> kin \<and> es \<noteq> [] \<and> last es = l"
  by auto

lemma lookup_noneD:
  "(d = None \<longleftrightarrow> \<not> kin) \<and> (\<forall>es'. d = Some es' \<longrightarrow> es' \<noteq> [] \<and> last es' = l) \<Longrightarrow>
   d = None \<Longrightarrow> \<not> kin"
  by auto

text \<open>
  What \<open>groups.get(k)\<close> holds: nothing when no element has the key \<open>k\<close>; otherwise a
  non-empty list whose last element is the last element of the input with the key \<open>k\<close>.
\<close>

lemma groups_lookup:
  "(dict_of (groupby key xs) k = None \<longleftrightarrow> \<not> k \<in> key ` set xs) \<and>
   (\<forall>es. dict_of (groupby key xs) k = Some es \<longrightarrow>
      es \<noteq> [] \<and> last es = last (filter (\<lambda>x. key x = k) xs))"
proof (induction key xs rule: groupby.induct)
  case (1 key)
  have "dict_of (groupby key []) k = None" by (simp add: dict_of_Nil)
  moreover have "\<not> k \<in> key ` set []" by simp
  ultimately show ?case by (rule lookup_none)
next
  case (2 key x xs)
  let ?rest = "dropWhile (\<lambda>y. key y = key x) xs"
  let ?run = "x # takeWhile (\<lambda>y. key y = key x) xs"
  note IH = 2
  show ?case
  proof (cases "dict_of (groupby key ?rest) k")
    case None
    from lookup_noneD[OF IH None] have notin: "k \<notin> key ` set ?rest" .
    show ?thesis
    proof (cases "key x = k")
      case True
      from None True have d: "dict_of (groupby key (x # xs)) k = Some ?run"
        by (simp add: dict_groupby_Cons del: groupby.simps)
      from notin have "key x \<notin> key ` set ?rest" unfolding True[symmetric] .
      then have f: "filter (\<lambda>y. key y = key x) (x # xs) = ?run" by (rule step_none_eq)
      have l: "last ?run = last (filter (\<lambda>y. key y = k) (x # xs))"
        unfolding True[symmetric] by (simp only: f)
      have ne: "?run \<noteq> []" by (rule list.distinct(2))
      have kin: "k \<in> key ` set (x # xs)" using True by (simp only: list.set image_insert insertI1)
      from d ne l kin show ?thesis by (rule lookup_some)
    next
      case False
      from None False have d: "dict_of (groupby key (x # xs)) k = None"
        by (simp add: dict_groupby_Cons del: groupby.simps)
      from notin False have "k \<notin> key ` set (x # xs)" by (rule step_none_neq)
      with d show ?thesis by (rule lookup_none)
    qed
  next
    case (Some es)
    from Some have d: "dict_of (groupby key (x # xs)) k = Some es"
      by (simp add: dict_groupby_Cons del: groupby.simps)
    from lookup_someD[OF IH Some]
    have in_rest: "k \<in> key ` set ?rest" and es: "es \<noteq> []"
      and l: "last es = last (filter (\<lambda>y. key y = k) ?rest)" by simp_all
    from step_some[OF in_rest, of x]
    have l': "last (filter (\<lambda>y. key y = k) (x # xs)) = last (filter (\<lambda>y. key y = k) ?rest)"
      and kin: "k \<in> key ` set (x # xs)" by simp_all
    from l l' have "last es = last (filter (\<lambda>y. key y = k) (x # xs))" by (simp only:)
    with d es show ?thesis using kin by (rule lookup_some)
  qed
qed

lemma collect_map_filter:
  "collect groups ks q =
     q @ List.map_filter
           (\<lambda>i. case groups i of None \<Rightarrow> None
                 | Some es \<Rightarrow> if es \<noteq> [] then Some (last es) else None) ks"
  by (induction ks arbitrary: q) (simp_all add: List.map_filter_simps split: option.splits)

lemma groups_pick:
  "(case dict_of (groupby key xs) k of
      None \<Rightarrow> None
    | Some es \<Rightarrow> if es \<noteq> [] then Some (last es) else None)
   = (if k \<in> key ` set xs then Some (last (filter (\<lambda>x. key x = k) xs)) else None)"
proof (cases "dict_of (groupby key xs) k")
  case None
  from lookup_noneD[OF groups_lookup None] have "k \<notin> key ` set xs" .
  with None show ?thesis by simp
next
  case (Some es)
  from lookup_someD[OF groups_lookup Some]
  have "k \<in> key ` set xs" "es \<noteq> []" "last es = last (filter (\<lambda>x. key x = k) xs)"
    by simp_all
  with Some show ?thesis by simp
qed

lemma map_filter_if:
  "List.map_filter (\<lambda>k. if P k then Some (g k) else None) ks = map g (filter P ks)"
  by (induction ks) (simp_all add: List.map_filter_simps)

lemma queue_eq:
  "collect (dict_of (groupby e_episode xs)) ks [] =
     map (\<lambda>n. last (filter (\<lambda>e. e_episode e = n) xs)) (filter (\<lambda>n. n \<in> e_episode ` set xs) ks)"
proof -
  have "collect (dict_of (groupby e_episode xs)) ks [] =
      List.map_filter
        (\<lambda>k. if k \<in> e_episode ` set xs then Some (last (filter (\<lambda>e. e_episode e = k) xs))
              else None) ks"
    by (simp only: collect_map_filter groups_pick append_Nil)
  then show ?thesis by (simp only: map_filter_if)
qed

lemma last_filter_key: "n \<in> key ` set xs \<Longrightarrow> key (last (filter (\<lambda>e. key e = n) xs)) = n"
proof -
  assume "n \<in> key ` set xs"
  then have ne: "filter (\<lambda>e. key e = n) xs \<noteq> []" by (auto simp: filter_empty_conv)
  from last_in_set[OF ne] show ?thesis by simp
qed

lemma queue_numbers:
  "map e_episode (collect (dict_of (groupby e_episode xs)) ks []) =
     filter (\<lambda>n. n \<in> e_episode ` set xs) ks"
proof -
  have "map e_episode (map (\<lambda>n. last (filter (\<lambda>e. e_episode e = n) xs))
          (filter (\<lambda>n. n \<in> e_episode ` set xs) ks))
        = map (\<lambda>n. n) (filter (\<lambda>n. n \<in> e_episode ` set xs) ks)"
    unfolding map_map by (rule map_cong) (simp_all add: last_filter_key)
  then show ?thesis by (simp add: queue_eq)
qed

lemma strict_upto: "sorted_wrt (<) [i..j::int]"
  by (simp add: strict_sorted_iff)

lemma reconcile_queue:
  "snd (reconcile subscribe followed_obj all_episode_data t) =
     map (\<lambda>n. last (filter (\<lambda>e. e_episode e = n) all_episode_data))
       (filter (\<lambda>n. n \<in> e_episode ` set all_episode_data)
          [f_episode subscribe + 1 .. maximum_episode all_episode_data])"
  by (simp add: reconcile_def Let_def queue_eq)

lemma reconcile_numbers:
  "map e_episode (snd (reconcile subscribe followed_obj all_episode_data t)) =
     filter (\<lambda>n. n \<in> e_episode ` set all_episode_data)
       [f_episode subscribe + 1 .. maximum_episode all_episode_data]"
  by (simp add: reconcile_def Let_def queue_numbers)

lemma reconcile_observed_a:
  "reconcile sub_a sub_a observed_a 1000 =
     (Some (sub_a\<lparr>f_episode := 6, f_status := STATUS_UPDATED, f_updated_time := 1000\<rparr>),
      [ep4_alt, ep6])"
  by (simp add: reconcile_def maximum_episode_def observed_a_def sub_a_def ep4_def ep4_alt_def
      ep6_def dict_of_def upto_rec1)

section \<open>The download queue\<close>

text \<open>
  C1.  For every subscription and every observed episode list (in particular one whose
  maximum episode number exceeds the watermark, the only case in which anything is
  queued), the download queue built by \<open>update\<close> is strictly increasing in episode
  number, and every queued episode has a number strictly greater than the watermark
  before the reconciliation: \<open>subscribe.episode\<close>, which line 383 compares with and
  line 384 starts the range from.
\<close>

theorem download_queue_increasing:
  "sorted_wrt (<) (map e_episode (snd (reconcile subscribe followed_obj all_episode_data t))) \<and>
   (\<forall>x \<in> set (snd (reconcile subscribe followed_obj all_episode_data t)).
      f_episode subscribe < e_episode x)"
proof
  show "sorted_wrt (<) (map e_episode (snd (reconcile subscribe followed_obj all_episode_data t)))"
    unfolding reconcile_numbers by (rule sorted_wrt_filter) (rule strict_upto)
next
  show "\<forall>x \<in> set (snd (reconcile subscribe followed_obj all_episode_data t)).
      f_episode subscribe < e_episode x"
  proof
    fix x assume "x \<in> set (snd (reconcile subscribe followed_obj all_episode_data t))"
    then have "e_episode x \<in> set (map e_episode (snd (reconcile subscribe followed_obj all_episode_data t)))"
      by simp
    then have "e_episode x \<in> set [f_episode subscribe + 1 .. maximum_episode all_episode_data]"
      unfolding reconcile_numbers by simp
    then show "f_episode subscribe < e_episode x" by simp
  qed
qed

theorem download_queue_increasing_witness:
  "f_episode sub_a < maximum_episode observed_a \<and>
   snd (reconcile sub_a sub_a observed_a 1000) = [ep4_alt, ep6] \<and>
   sorted_wrt (<) (map e_episode [ep4_alt, ep6]) \<and>
   f_episode sub_a < e_episode ep4_alt \<and> f_episode sub_a < e_episode ep6"
  using download_queue_increasing[of sub_a sub_a observed_a 1000]
  by (simp add: reconcile_observed_a)
    (simp add: maximum_episode_def observed_a_def sub_a_def ep4_def ep4_alt_def ep6_def)

text \<open>
  C3.  The queue holds, for each number \<open>n\<close> from the watermark + 1 up to the highest
  observed number for which an episode was observed, and in this order, the last episode
  with the number \<open>n\<close> in the order of the observed list; a number with no observed episode
  contributes nothing.
\<close>

theorem download_queue_last_instance:
  "snd (reconcile subscribe followed_obj all_episode_data t) =
     map (\<lambda>n. last (filter (\<lambda>e. e_episode e = n) all_episode_data))
       (filter (\<lambda>n. n \<in> e_episode ` set all_episode_data)
          [f_episode subscribe + 1 .. maximum_episode all_episode_data])"
  by (rule reconcile_queue)

theorem download_queue_last_instance_witness:
  "snd (reconcile sub_a sub_a observed_a 1000) = [ep4_alt, ep6] \<and>
   last (filter (\<lambda>e. e_episode e = 4) observed_a) = ep4_alt \<and>
   filter (\<lambda>n. n \<in> e_episode ` set observed_a) [f_episode sub_a + 1 .. maximum_episode observed_a]
     = [4, 6]"
  using download_queue_last_instance[of sub_a sub_a observed_a 1000]
  by (simp add: reconcile_observed_a)
    (simp add: maximum_episode_def observed_a_def sub_a_def ep4_def ep4_alt_def ep6_def upto_rec1)

section \<open>The subscription store\<close>

lemma Followed_get_name: "Followed_get tbl name = Some f \<Longrightarrow> f_bangumi_name f = name"
  by (auto simp: Followed_get_def find_Some_iff)

lemma Followed_get_Nil: "Followed_get [] name = None"
  by (simp add: Followed_get_def)

lemma Followed_get_Cons:
  "Followed_get (f # tbl) name = (if f_bangumi_name f = name then Some f else Followed_get tbl name)"
  by (simp add: Followed_get_def)

lemma Followed_get_save_same:
  "Followed_get (Followed_save obj tbl) (f_bangumi_name obj) = Some obj"
  by (induction tbl) (simp_all add: Followed_get_Cons Followed_get_Nil)

lemma Followed_get_save_other:
  "name \<noteq> f_bangumi_name obj \<Longrightarrow> Followed_get (Followed_save obj tbl) name = Followed_get tbl name"
  by (induction tbl) (simp_all add: Followed_get_Cons Followed_get_Nil)

lemma Followed_save_same:
  "Followed_get tbl (f_bangumi_name obj) = Some obj \<Longrightarrow> Followed_save obj tbl = tbl"
  by (induction tbl) (simp_all add: Followed_get_Cons Followed_get_Nil split: if_splits)

section \<open>A cycle that finds nothing new\<close>

lemma reconcile_nothing_new:
  "(all_episode_data = [] \<and> 0 \<le> f_episode subscribe) \<or>
   (all_episode_data \<noteq> [] \<and> Max (set (map e_episode all_episode_data)) \<le> f_episode subscribe) \<Longrightarrow>
   reconcile subscribe followed_obj all_episode_data t = (None, [])"
proof -
  assume a: "(all_episode_data = [] \<and> 0 \<le> f_episode subscribe) \<or>
   (all_episode_data \<noteq> [] \<and> Max (set (map e_episode all_episode_data)) \<le> f_episode subscribe)"
  have "maximum_episode all_episode_data \<le> f_episode subscribe"
  proof (cases "all_episode_data = []")
    case True
    with a show ?thesis by (simp add: maximum_episode_def)
  next
    case False
    with a have "Max (set (map e_episode all_episode_data)) \<le> f_episode subscribe" by blast
    with False show ?thesis by (simp only: maximum_episode_def not_False_eq_True if_True)
  qed
  then show ?thesis by (simp add: reconcile_def Let_def)
qed

text \<open>
  C2, as the code has it.  When the observed list is empty and the watermark is not
  negative, or the list is not empty and its maximum is at most the watermark, the turn of
  the loop for this subscription leaves the whole database as it was (so the status, the
  watermark and \<open>updated_time\<close> of the subscription too) and its download queue is empty.
\<close>

theorem update_one_nothing_new:
  assumes "Bangumi_get (bangumi_table st) (f_bangumi_name subscribe) = Some bangumi_obj"
    and "Followed_get (followed_table st) (f_bangumi_name subscribe) = Some followed_obj"
    and "get_maximum_episode env bangumi_obj (Some ignore) = Inr all_episode_data"
    and "(all_episode_data = [] \<and> 0 \<le> f_episode subscribe) \<or>
         (all_episode_data \<noteq> [] \<and>
          Max (set (map e_episode all_episode_data)) \<le> f_episode subscribe)"
  shows "reconcile subscribe followed_obj all_episode_data t = (None, []) \<and>
         update_one env download ignore subscribe st = Inr (st, if download then [[]] else [])"
  using assms reconcile_nothing_new[OF assms(4)] by (simp add: update_one_def)

theorem update_one_nothing_new_witness:
  "Bangumi_get (bangumi_table db_a) (f_bangumi_name sub_a) = Some show_a \<and>
   Followed_get (followed_table db_a) (f_bangumi_name sub_a) = Some sub_a \<and>
   get_maximum_episode env_quiet show_a (Some True) = Inr [] \<and>
   0 \<le> f_episode sub_a \<and>
   update_one env_quiet True True sub_a db_a = Inr (db_a, [[]])"
  using update_one_nothing_new[of db_a sub_a show_a sub_a env_quiet True "[]" 1000 True]
  by (simp add: db_a_def sub_a_def show_a_def env_quiet_def env_a_def Bangumi_get_def
      Followed_get_def)

text \<open>
  The claim as stated fails for a negative watermark, which \<open>mark\<close> stores without a
  check: with no episode observed, line 381 sets \<open>episode = 0\<close>, which exceeds the
  watermark \<open>-1\<close>, and the subscription is moved to \<open>UPDATED\<close> with watermark \<open>0\<close>.
\<close>

theorem update_one_nothing_new_counterexample:
  "snd (mark db_a ''Show A'' (- 1)) = db_neg \<and>
   get_maximum_episode env_quiet show_a (Some True) = Inr [] \<and>
   update_one env_quiet True True sub_neg db_neg =
     Inr (db_neg\<lparr>followed_table :=
                   [sub_neg\<lparr>f_episode := 0, f_status := STATUS_UPDATED, f_updated_time := 1000\<rparr>]\<rparr>,
          [[]]) \<and>
   f_status sub_neg = STATUS_FOLLOWED \<and> STATUS_FOLLOWED \<noteq> STATUS_UPDATED"
  by (simp add: mark_def update_one_def reconcile_def maximum_episode_def db_neg_def db_a_def
      sub_neg_def sub_a_def show_a_def env_quiet_def env_a_def Bangumi_get_def Followed_get_def
      dict_of_def STATUS_FOLLOWED_def STATUS_UPDATED_def)

section \<open>\<open>search\<close>\<close>

lemma search_data_sorted:
  "search_data env keyword count regex dupe min_episode max_episode tag subtitle = Inr data \<Longrightarrow>
   sorted (map e_episode data)"
  by (auto simp: search_data_def Let_def split: sum.splits if_splits)

text \<open>
  C10.  Whenever \<open>search\<close> returns a result with the status "success", the list under
  "data" is sorted in non-decreasing order of episode number.
\<close>

theorem search_success_sorted:
  assumes "search env keyword count regex dupe min_episode max_episode tag subtitle = Inr r"
    and "s_status r = ''success''"
  shows "sorted (map e_episode (s_data r))"
proof (cases "search_data env keyword count regex dupe min_episode max_episode tag subtitle")
  case (Inl e)
  with assms show ?thesis by (auto simp: search_def split: if_splits)
next
  case (Inr data)
  with assms(1) have "s_data r = data" by (auto simp: search_def)
  with search_data_sorted[OF Inr] show ?thesis by simp
qed

theorem search_success_sorted_witness:
  "search env_a ''Show'' 3 None True (Some 4) None False None =
     Inr \<lparr>s_status = ''success'', s_message = [],
          s_options = \<lparr>o_keyword = ''Show'', o_count = 3, o_regex = None, o_dupe = True,
                        o_min_episode = Some 4, o_max_episode = None\<rparr>,
          s_data = [ep4, ep4_alt, ep6]\<rparr> \<and>
   sorted (map e_episode [ep4, ep4_alt, ep6])"
proof -
  have s: "search env_a ''Show'' 3 None True (Some 4) None False None =
     Inr \<lparr>s_status = ''success'', s_message = [],
          s_options = \<lparr>o_keyword = ''Show'', o_count = 3, o_regex = None, o_dupe = True,
                        o_min_episode = Some 4, o_max_episode = None\<rparr>,
          s_data = [ep4, ep4_alt, ep6]\<rparr>"
    by (simp add: search_def search_data_def env_a_def ep4_def ep4_alt_def ep6_def)
  from search_success_sorted[OF s] s show ?thesis by simp
qed

section \<open>\<open>status_\<close> on a name that is not followed\<close>

text \<open>
  C7.  The claim says that \<open>status_\<close> on a name with no subscription returns an error
  result.  The code does not: for a legal, non-zero status the \<open>NotFoundError\<close> of
  \<open>Followed.get\<close> leaves the function, and the database is as before.
\<close>

theorem status_change_raises:
  assumes "status \<in> set FOLLOWED_STATUS" and "status \<noteq> 0"
    and "Followed_get (followed_table st) name = None"
  shows "status_change st name status = (Inl NotFoundError, st)"
  using assms by (simp add: status_change_def)

theorem status_change_raises_witness:
  "STATUS_FOLLOWED \<in> set FOLLOWED_STATUS \<and> STATUS_FOLLOWED \<noteq> 0 \<and>
   Followed_get (followed_table db_a) ''Show B'' = None \<and>
   status_change db_a ''Show B'' STATUS_FOLLOWED = (Inl NotFoundError, db_a)"
proof -
  have a: "STATUS_FOLLOWED \<in> set FOLLOWED_STATUS" by (simp add: FOLLOWED_STATUS_def)
  have b: "STATUS_FOLLOWED \<noteq> 0" by (simp add: STATUS_FOLLOWED_def)
  have c: "Followed_get (followed_table db_a) ''Show B'' = None"
    by (simp add: db_a_def sub_a_def Followed_get_def)
  from status_change_raises[OF a b c] a b c show ?thesis by simp
qed

section \<open>\<open>delete\<close> of one series\<close>

text \<open>
  C8, as the code has it.  For a non-empty name, \<open>delete\<close> looks the row up by name
  alone.  A row in any status, \<open>DELETED\<close> included, is kept with its status set to
  \<open>DELETED\<close>, and the result is the warning "has been deleted"; deleting again changes
  nothing more.  Only a name with no row gives the error "does not exist".
\<close>

theorem delete_single:
  assumes "name \<noteq> []"
  shows
    "(\<forall>followed. Followed_get (followed_table st) name = Some followed \<longrightarrow>
        delete env st name False batch =
          ([''status'' \<mapsto> ''warning'', ''message'' \<mapsto> ''Bangumi '' @ name @ '' has been deleted''],
           st\<lparr>followed_table :=
                Followed_save (followed\<lparr>f_status := STATUS_DELETED\<rparr>) (followed_table st)\<rparr>) \<and>
        Followed_get (followed_table (snd (delete env st name False batch))) name =
          Some (followed\<lparr>f_status := STATUS_DELETED\<rparr>) \<and>
        snd (delete env (snd (delete env st name False batch)) name False batch) =
          snd (delete env st name False batch)) \<and>
     (Followed_get (followed_table st) name = None \<longrightarrow>
        delete env st name False batch =
          ([''status'' \<mapsto> ''error'', ''message'' \<mapsto> ''Bangumi '' @ name @ '' does not exist''],
           st))"
proof (intro conjI allI impI)
  fix followed
  assume g: "Followed_get (followed_table st) name = Some followed"
  let ?obj = "followed\<lparr>f_status := STATUS_DELETED\<rparr>"
  let ?st = "st\<lparr>followed_table := Followed_save ?obj (followed_table st)\<rparr>"
  from Followed_get_name[OF g] have n: "f_bangumi_name ?obj = name" by simp
  show d: "delete env st name False batch =
          ([''status'' \<mapsto> ''warning'', ''message'' \<mapsto> ''Bangumi '' @ name @ '' has been deleted''], ?st)"
    using assms g by (simp add: delete_def)
  have g': "Followed_get (followed_table ?st) name = Some ?obj"
    using Followed_get_save_same[of ?obj "followed_table st"] n by simp
  show "Followed_get (followed_table (snd (delete env st name False batch))) name = Some ?obj"
    unfolding d using g' by simp
  have "Followed_save ?obj (followed_table ?st) = followed_table ?st"
    by (rule Followed_save_same) (simp only: n g')
  then have "snd (delete env ?st name False batch) = ?st"
    using assms g' by (simp add: delete_def)
  then show "snd (delete env (snd (delete env st name False batch)) name False batch) =
          snd (delete env st name False batch)"
    unfolding d by simp
next
  assume "Followed_get (followed_table st) name = None"
  with assms show "delete env st name False batch =
          ([''status'' \<mapsto> ''error'', ''message'' \<mapsto> ''Bangumi '' @ name @ '' does not exist''], st)"
    by (simp add: delete_def)
qed

theorem delete_single_witness:
  "''Show A'' \<noteq> [] \<and>
   Followed_get (followed_table db_a) ''Show A'' = Some sub_a \<and>
   snd (delete env_a db_a ''Show A'' False False) = db_del \<and>
   fst (delete env_a db_a ''Show A'' False False) ''status'' = Some ''warning'' \<and>
   snd (delete env_a db_del ''Show A'' False False) = db_del \<and>
   Followed_get (followed_table db_a) ''Show B'' = None \<and>
   fst (delete env_a db_a ''Show B'' False False) ''status'' = Some ''error''"
proof -
  have a: "''Show A'' \<noteq> []" by simp
  have g: "Followed_get (followed_table db_a) ''Show A'' = Some sub_a"
    by (simp add: db_a_def sub_a_def Followed_get_def)
  have h: "Followed_get (followed_table db_a) ''Show B'' = None"
    by (simp add: db_a_def sub_a_def Followed_get_def)
  have e: "db_a\<lparr>followed_table := Followed_save (sub_a\<lparr>f_status := STATUS_DELETED\<rparr>) (followed_table db_a)\<rparr>
      = db_del"
    by (simp add: db_del_def sub_del_def db_a_def)
  from delete_single[OF a, of db_a env_a False] g
  have 1: "delete env_a db_a ''Show A'' False False =
      ([''status'' \<mapsto> ''warning'', ''message'' \<mapsto> ''Bangumi '' @ ''Show A'' @ '' has been deleted''],
       db_del)"
    and 2: "snd (delete env_a (snd (delete env_a db_a ''Show A'' False False)) ''Show A'' False False) =
          snd (delete env_a db_a ''Show A'' False False)"
    unfolding e[symmetric] by blast+
  from delete_single[of "''Show B''" db_a env_a False] h
  have 3: "delete env_a db_a ''Show B'' False False =
      ([''status'' \<mapsto> ''error'', ''message'' \<mapsto> ''Bangumi '' @ ''Show B'' @ '' does not exist''], db_a)"
    by simp
  from 2 have 4: "snd (delete env_a db_del ''Show A'' False False) = db_del" unfolding 1 by simp
  from a g h 1 3 4 show ?thesis by simp
qed

text \<open>
  The claim as stated fails for a series that is already deleted: the row is found, and
  the result is the warning of a deletion, not "does not exist".
\<close>

theorem delete_single_counterexample:
  "Followed_get (followed_table db_del) ''Show A'' = Some sub_del \<and>
   f_status sub_del = STATUS_DELETED \<and>
   delete env_a db_del ''Show A'' False False =
     ([''status'' \<mapsto> ''warning'', ''message'' \<mapsto> ''Bangumi Show A has been deleted''], db_del)"
  by (simp add: delete_def db_del_def db_a_def sub_del_def sub_a_def Followed_get_def)

section \<open>\<open>add\<close>\<close>

text \<open>
  C4, as the code has it.  When the name resolves to a series whose subscription has the
  status \<open>FOLLOWED\<close>, \<open>add\<close> returns the warning "already followed" and writes nothing
  to the subscriptions: the guard of line 59 tests \<open>FOLLOWED\<close> only.
\<close>

theorem add_already_followed:
  assumes "fetch_if_empty env st = Inr catalogue"
    and "Bangumi_get_contains env catalogue name = Some bangumi_obj"
    and "Followed_get (followed_table st) (b_name bangumi_obj) = Some followed_obj"
    and "f_status followed_obj = STATUS_FOLLOWED"
  shows "add env st name episode =
           (Inr [''status'' \<mapsto> ''warning'',
                 ''message'' \<mapsto> b_name bangumi_obj @ '' already followed''],
            st\<lparr>bangumi_table := catalogue\<rparr>) \<and>
         followed_table (snd (add env st name episode)) = followed_table st"
  using assms by (simp add: add_def)

theorem add_already_followed_witness:
  "fetch_if_empty env_a db_a = Inr [show_a] \<and>
   Bangumi_get_contains env_a [show_a] ''Show A'' = Some show_a \<and>
   Followed_get (followed_table db_a) (b_name show_a) = Some sub_a \<and>
   f_status sub_a = STATUS_FOLLOWED \<and>
   add env_a db_a ''Show A'' None =
     (Inr [''status'' \<mapsto> ''warning'', ''message'' \<mapsto> ''Show A already followed''], db_a)"
proof -
  have a: "fetch_if_empty env_a db_a = Inr [show_a]"
    by (simp add: fetch_if_empty_def env_a_def db_a_def)
  have b: "Bangumi_get_contains env_a [show_a] ''Show A'' = Some show_a"
    by (simp add: env_a_def Bangumi_get_def show_a_def)
  have c: "Followed_get (followed_table db_a) (b_name show_a) = Some sub_a"
    by (simp add: db_a_def sub_a_def show_a_def Followed_get_def)
  have d: "f_status sub_a = STATUS_FOLLOWED" by (simp add: sub_a_def)
  have e: "db_a\<lparr>bangumi_table := [show_a]\<rparr> = db_a" by (simp add: db_a_def)
  have f: "b_name show_a @ '' already followed'' = ''Show A already followed''"
    by (simp add: show_a_def)
  from add_already_followed[OF a b c d, of None] a b c d show ?thesis
    unfolding e f by simp
qed

text \<open>
  The claim as stated fails for a subscription in the status \<open>UPDATED\<close>: \<open>add\<close> takes
  the \<open>else\<close> branch of line 65, sets the status to \<open>FOLLOWED\<close>, moves the watermark to the
  highest episode the website shows, and returns "success".
\<close>

theorem add_already_followed_counterexample:
  "Followed_get (followed_table db_upd) ''Show A'' = Some sub_upd \<and>
   f_status sub_upd = STATUS_UPDATED \<and>
   add env_a db_upd ''Show A'' None =
     (Inr [''status'' \<mapsto> ''success'',
           ''message'' \<mapsto> ''add Show A to subscribing bangumi list''],
      db_upd\<lparr>followed_table := [sub_upd\<lparr>f_status := STATUS_FOLLOWED, f_episode := 6\<rparr>]\<rparr>) \<and>
   STATUS_FOLLOWED \<noteq> STATUS_UPDATED \<and> f_episode sub_upd = 3"
  by (simp add: add_def add_episode_def fetch_if_empty_def maximum_episode_def db_upd_def
      db_a_def sub_upd_def sub_a_def show_a_def env_a_def observed_a_def ep4_def ep4_alt_def
      ep6_def Bangumi_get_def Followed_get_def STATUS_FOLLOWED_def STATUS_UPDATED_def)

text \<open>
  C6, as the code has it.  \<open>add\<close> commits the block of lines 51--66 before it asks the
  website for the highest episode.  When that fetch raises, the exception leaves \<open>add\<close>
  and the subscriptions keep what the block wrote: a new row (\<open>FOLLOWED\<close>, watermark 0)
  for a series that had none, or the old row with its status set to \<open>FOLLOWED\<close> for a
  series that was not in the status \<open>FOLLOWED\<close>; no other row is touched.  Only for a
  series already \<open>FOLLOWED\<close> nothing is written (and nothing is fetched).
\<close>

theorem add_fetch_failure:
  assumes "fetch_if_empty env st = Inr catalogue"
    and "Bangumi_get_contains env catalogue name = Some bangumi_obj"
    and "get_maximum_episode env bangumi_obj None = Inl e"
  shows "add env st name None =
           (case Followed_get (followed_table st) (b_name bangumi_obj) of
              None \<Rightarrow>
                (Inl e,
                 st\<lparr>bangumi_table := catalogue,
                     followed_table := followed_table st @ [new_followed (b_name bangumi_obj)]\<rparr>)
            | Some followed_obj \<Rightarrow>
                if f_status followed_obj = STATUS_FOLLOWED then
                  (Inr [''status'' \<mapsto> ''warning'',
                        ''message'' \<mapsto> b_name bangumi_obj @ '' already followed''],
                   st\<lparr>bangumi_table := catalogue\<rparr>)
                else
                  (Inl e,
                   st\<lparr>bangumi_table := catalogue,
                       followed_table :=
                         Followed_save (followed_obj\<lparr>f_status := STATUS_FOLLOWED\<rparr>)
                           (followed_table st)\<rparr>))"
  using assms by (simp add: add_def add_episode_def split: option.splits)

theorem add_fetch_failure_witness:
  "fetch_if_empty env_down db_del = Inr [show_a] \<and>
   Bangumi_get_contains env_down [show_a] ''Show A'' = Some show_a \<and>
   get_maximum_episode env_down show_a None = Inl (ConnectionError ''unreachable'') \<and>
   add env_down db_del ''Show A'' None =
     (Inl (ConnectionError ''unreachable''),
      db_del\<lparr>followed_table := [sub_del\<lparr>f_status := STATUS_FOLLOWED\<rparr>]\<rparr>)"
proof -
  have a: "fetch_if_empty env_down db_del = Inr [show_a]"
    by (simp add: fetch_if_empty_def env_down_def env_a_def db_del_def db_a_def)
  have b: "Bangumi_get_contains env_down [show_a] ''Show A'' = Some show_a"
    by (simp add: env_down_def env_a_def Bangumi_get_def show_a_def)
  have c: "get_maximum_episode env_down show_a None = Inl (ConnectionError ''unreachable'')"
    by (simp add: env_down_def env_a_def)
  from add_fetch_failure[OF a b c] a b c show ?thesis
    by (simp add: db_del_def db_a_def sub_del_def sub_a_def show_a_def Followed_get_def
        STATUS_DELETED_def STATUS_FOLLOWED_def)
qed

text \<open>
  The claim as stated fails: \<open>add("Show A")\<close> for a series nobody follows, with the
  website out of reach, raises and leaves a new subscription behind.
\<close>

theorem add_fetch_failure_counterexample:
  "followed_table db_new = [] \<and>
   add env_down db_new ''Show A'' None =
     (Inl (ConnectionError ''unreachable''),
      db_new\<lparr>followed_table := [new_followed ''Show A'']\<rparr>) \<and>
   f_status (new_followed ''Show A'') = STATUS_FOLLOWED \<and>
   f_episode (new_followed ''Show A'') = 0"
  by (simp add: add_def add_episode_def fetch_if_empty_def db_new_def db_a_def show_a_def
      env_down_def env_a_def Bangumi_get_def Followed_get_def new_followed_def)

section \<open>A series that cannot be fetched\<close>

lemma update_one_unreachable:
  "Bangumi_get (bangumi_table st) (f_bangumi_name subscribe) = Some bangumi_obj \<Longrightarrow>
   get_maximum_episode env bangumi_obj (Some ignore) = Inl (ConnectionError e) \<Longrightarrow>
   update_one env download ignore subscribe st = Inr (st, [])"
  by (simp add: update_one_def split: option.splits)

lemma update_loop_append:
  "update_loop env download ignore (xs @ ys) st out =
     (case update_loop env download ignore xs st out of
        (None, st1, out1) \<Rightarrow> update_loop env download ignore ys st1 out1
      | (Some e, st1, out1) \<Rightarrow> (Some e, st1, out1))"
  by (induction xs arbitrary: st out) (simp_all split: sum.splits prod.splits)

text \<open>
  C9, as the code has it.  When the fetch for one series of the list raises a
  \<open>ConnectionError\<close>, the one class the \<open>except\<close> of line 374 names, the turn for this
  series changes nothing and hands nothing to the downloader, and the loop goes on with
  the series after it, from the database and the queue the series before it left.
\<close>

theorem update_loop_skips_unreachable:
  assumes "update_loop env download ignore before st out = (None, st1, out1)"
    and "Bangumi_get (bangumi_table st1) (f_bangumi_name subscribe) = Some bangumi_obj"
    and "get_maximum_episode env bangumi_obj (Some ignore) = Inl (ConnectionError e)"
  shows "update_loop env download ignore (before @ subscribe # rest) st out =
           update_loop env download ignore rest st1 out1"
  using assms(1) update_one_unreachable[OF assms(2,3), of download]
  by (simp add: update_loop_append)

theorem update_loop_skips_unreachable_witness:
  "update_loop env_partial True True [] db_ab [] = (None, db_ab, []) \<and>
   Bangumi_get (bangumi_table db_ab) (f_bangumi_name sub_a) = Some show_a \<and>
   get_maximum_episode env_partial show_a (Some True) = Inl (ConnectionError ''unreachable'') \<and>
   update_loop env_partial True True [sub_a, sub_b] db_ab [] =
     (None,
      db_ab\<lparr>followed_table :=
              [sub_a, sub_b\<lparr>f_episode := 2, f_status := STATUS_UPDATED, f_updated_time := 1000\<rparr>]\<rparr>,
      [[to_download ep_b2]])"
proof -
  have a: "update_loop env_partial True True [] db_ab [] = (None, db_ab, [])" by simp
  have b: "Bangumi_get (bangumi_table db_ab) (f_bangumi_name sub_a) = Some show_a"
    by (simp add: db_ab_def sub_a_def show_a_def Bangumi_get_def)
  have c: "get_maximum_episode env_partial show_a (Some True) = Inl (ConnectionError ''unreachable'')"
    by (simp add: env_partial_def env_a_def show_a_def)
  have d: "update_loop env_partial True True [sub_b] db_ab [] =
     (None,
      db_ab\<lparr>followed_table :=
              [sub_a, sub_b\<lparr>f_episode := 2, f_status := STATUS_UPDATED, f_updated_time := 1000\<rparr>]\<rparr>,
      [[to_download ep_b2]])"
    by (simp add: update_one_def reconcile_def maximum_episode_def dict_of_def db_ab_def
        sub_a_def sub_b_def show_a_def show_b_def ep_b2_def env_partial_def env_a_def
        Bangumi_get_def Followed_get_def)
  from update_loop_skips_unreachable[OF a b c, of "[sub_b]"] a b c d show ?thesis by simp
qed

text \<open>
  The claim as stated fails for a fetch failure of any other class: the exception leaves
  \<open>update\<close> at the first series, and the series after it is never reconciled ("Show B"
  keeps its watermark 1 although its episode 2 is there, and nothing is handed to the
  downloader).
\<close>

theorem update_loop_skips_unreachable_counterexample:
  "Bangumi_get (bangumi_table db_ab) (f_bangumi_name sub_a) = Some show_a \<and>
   get_maximum_episode env_timeout show_a (Some True) = Inl (OtherException ''read timed out'') \<and>
   get_maximum_episode env_timeout show_b (Some True) = Inr [ep_b2] \<and>
   update_loop env_timeout True True [sub_a, sub_b] db_ab [] =
     (Some (OtherException ''read timed out''), db_ab, []) \<and>
   update env_timeout db_ab [] True False =
     (Some (OtherException ''read timed out''), db_ab, []) \<and>
   update_loop env_timeout True True [sub_b] db_ab [] =
     (None,
      db_ab\<lparr>followed_table :=
              [sub_a, sub_b\<lparr>f_episode := 2, f_status := STATUS_UPDATED, f_updated_time := 1000\<rparr>]\<rparr>,
      [[to_download ep_b2]])"
  by (simp add: update_def mark_followed_def mark_scripts_def get_all_followed_def stale_def
      update_one_def reconcile_def maximum_episode_def dict_of_def db_ab_def sub_a_def
      sub_b_def show_a_def show_b_def ep_b2_def env_timeout_def env_a_def Bangumi_get_def
      Followed_get_def STATUS_FOLLOWED_def STATUS_UPDATED_def STATUS_DELETED_def)

section \<open>The expiry of the status \<open>UPDATED\<close>\<close>

lemma find_SomeD: "find P xs = Some y \<Longrightarrow> y \<in> set xs \<and> P y"
  by (induction xs) (auto split: if_splits)

lemma find_append_if:
  "find P (xs @ [x]) = (case find P xs of Some y \<Rightarrow> Some y | None \<Rightarrow> if P x then Some x else None)"
  by (induction xs) simp_all

text \<open>
  What the loop of lines 309--312 leaves under a name: the row as it was, unless one of
  the rows the loop visits has this name and is stale; then the last such row, with the
  status \<open>FOLLOWED\<close>.
\<close>

lemma expiry_lookup:
  "Followed_get
     (fold (\<lambda>follow t.
              if stale now follow then Followed_save (follow\<lparr>f_status := STATUS_FOLLOWED\<rparr>) t
              else t) xs tbl) name =
   (case find (\<lambda>x. f_bangumi_name x = name \<and> stale now x) (rev xs) of
      None \<Rightarrow> Followed_get tbl name
    | Some y \<Rightarrow> Some (y\<lparr>f_status := STATUS_FOLLOWED\<rparr>))"
proof (induction xs arbitrary: tbl)
  case Nil
  show ?case by simp
next
  case (Cons x xs)
  show ?case
  proof (cases "find (\<lambda>x. f_bangumi_name x = name \<and> stale now x) (rev xs)")
    case (Some y)
    then show ?thesis by (simp add: Cons find_append_if)
  next
    case None
    show ?thesis
    proof (cases "stale now x")
      case False
      with None show ?thesis by (simp add: Cons find_append_if)
    next
      case True
      show ?thesis
      proof (cases "f_bangumi_name x = name")
        case same: True
        have "Followed_get (Followed_save (x\<lparr>f_status := STATUS_FOLLOWED\<rparr>) tbl)
                (f_bangumi_name (x\<lparr>f_status := STATUS_FOLLOWED\<rparr>))
              = Some (x\<lparr>f_status := STATUS_FOLLOWED\<rparr>)"
          by (rule Followed_get_save_same)
        with same have "Followed_get (Followed_save (x\<lparr>f_status := STATUS_FOLLOWED\<rparr>) tbl) name
              = Some (x\<lparr>f_status := STATUS_FOLLOWED\<rparr>)" by simp
        with None True same show ?thesis by (simp add: Cons find_append_if)
      next
        case other: False
        then have "name \<noteq> f_bangumi_name (x\<lparr>f_status := STATUS_FOLLOWED\<rparr>)" by auto
        from Followed_get_save_other[OF this]
        have "Followed_get (Followed_save (x\<lparr>f_status := STATUS_FOLLOWED\<rparr>) tbl) name
              = Followed_get tbl name" .
        with None True other show ?thesis by (simp add: Cons find_append_if)
      qed
    qed
  qed
qed

lemma distinct_names_eq:
  assumes "distinct (map f_bangumi_name tbl)" "x \<in> set tbl" "y \<in> set tbl"
    and "f_bangumi_name x = f_bangumi_name y"
  shows "x = y"
proof -
  from assms(1) have "inj_on f_bangumi_name (set tbl)" by (simp add: distinct_map)
  from this assms(4,2,3) show ?thesis by (rule inj_onD)
qed

lemma Followed_get_distinct:
  assumes "distinct (map f_bangumi_name tbl)" "x \<in> set tbl"
  shows "Followed_get tbl (f_bangumi_name x) = Some x"
proof (cases "Followed_get tbl (f_bangumi_name x)")
  case None
  then have "\<not> (\<exists>y. y \<in> set tbl \<and> f_bangumi_name y = f_bangumi_name x)"
    by (simp add: Followed_get_def find_None_iff)
  with assms(2) show ?thesis by blast
next
  case (Some y)
  then have "y \<in> set tbl \<and> f_bangumi_name y = f_bangumi_name x"
    unfolding Followed_get_def by (rule find_SomeD)
  with assms have "y = x" by (metis distinct_names_eq)
  with Some show ?thesis by simp
qed

lemma stale_find:
  assumes "distinct (map f_bangumi_name tbl)" "x \<in> set tbl"
  shows "find (\<lambda>y. f_bangumi_name y = f_bangumi_name x \<and> stale now y) (rev (get_all_followed tbl)) =
         (if f_status x \<noteq> STATUS_DELETED \<and> stale now x then Some x else None)"
proof (cases "find (\<lambda>y. f_bangumi_name y = f_bangumi_name x \<and> stale now y) (rev (get_all_followed tbl))")
  case None
  have "\<not> (f_status x \<noteq> STATUS_DELETED \<and> stale now x)"
  proof
    assume a: "f_status x \<noteq> STATUS_DELETED \<and> stale now x"
    with assms(2) have "x \<in> set (rev (get_all_followed tbl))" by (simp add: get_all_followed_def)
    moreover from a have "f_bangumi_name x = f_bangumi_name x \<and> stale now x" by simp
    ultimately have "\<exists>y. y \<in> set (rev (get_all_followed tbl)) \<and>
        (f_bangumi_name y = f_bangumi_name x \<and> stale now y)" by (rule_tac x = x in exI) (rule conjI)
    moreover from None have "\<not> (\<exists>y. y \<in> set (rev (get_all_followed tbl)) \<and>
        (f_bangumi_name y = f_bangumi_name x \<and> stale now y))" unfolding find_None_iff .
    ultimately show False by (rule rev_notE) 
  qed
  with None show ?thesis by simp
next
  case (Some y)
  from find_SomeD[OF Some]
  have y: "y \<in> set (rev (get_all_followed tbl))" "f_bangumi_name y = f_bangumi_name x" "stale now y"
    by simp_all
  from y(1) have yt: "y \<in> set tbl" and yd: "f_status y \<noteq> STATUS_DELETED"
    by (simp_all add: get_all_followed_def)
  from distinct_names_eq[OF assms(1) yt assms(2) y(2)] have "y = x" .
  with Some y(3) yd show ?thesis by simp
qed

lemma mark_followed_lookup:
  assumes "distinct (map f_bangumi_name tbl)" "x \<in> set tbl"
  shows "Followed_get (mark_followed now tbl) (f_bangumi_name x) =
         (if f_status x \<noteq> STATUS_DELETED \<and> stale now x then Some (x\<lparr>f_status := STATUS_FOLLOWED\<rparr>)
          else Some x)"
  unfolding mark_followed_def expiry_lookup stale_find[OF assms]
  using Followed_get_distinct[OF assms] by simp

text \<open>
  C5, as the code has it.  In a table with one row per series, the loop that opens
  \<open>update\<close> sets a subscription in the status \<open>UPDATED\<close> back to \<open>FOLLOWED\<close> when its
  \<open>updated_time\<close> is not \<open>0\<close> and lies more than 24 hours before the current time; a
  subscription whose \<open>updated_time\<close> lies one hour back keeps its row, and so \<open>UPDATED\<close>.
\<close>

theorem mark_followed_expires:
  assumes "distinct (map f_bangumi_name tbl)" and "follow \<in> set tbl"
    and "f_status follow = STATUS_UPDATED"
  shows "(f_updated_time follow \<noteq> 0 \<and> f_updated_time follow + 24 * 60 * 60 < now \<longrightarrow>
            Followed_get (mark_followed now tbl) (f_bangumi_name follow) =
              Some (follow\<lparr>f_status := STATUS_FOLLOWED\<rparr>)) \<and>
         (f_updated_time follow = now - 60 * 60 \<longrightarrow>
            Followed_get (mark_followed now tbl) (f_bangumi_name follow) = Some follow)"
  using assms(3) unfolding mark_followed_lookup[OF assms(1,2)]
  by (simp add: stale_def STATUS_UPDATED_def STATUS_DELETED_def)

theorem mark_followed_expires_witness:
  "distinct (map f_bangumi_name [sub_old, sub_b]) \<and>
   f_status sub_old = STATUS_UPDATED \<and> f_updated_time sub_old \<noteq> 0 \<and>
   f_updated_time sub_old + 24 * 60 * 60 < 91000 \<and>
   Followed_get (mark_followed 91000 [sub_old, sub_b]) ''Show A'' =
     Some (sub_old\<lparr>f_status := STATUS_FOLLOWED\<rparr>) \<and>
   f_status sub_b = STATUS_UPDATED \<and> f_updated_time sub_b = 91000 - 60 * 60 \<and>
   Followed_get (mark_followed 91000 [sub_old, sub_b]) ''Show B'' = Some sub_b"
proof -
  have d: "distinct (map f_bangumi_name [sub_old, sub_b])"
    by (simp add: sub_old_def sub_a_def sub_b_def)
  have a: "f_status sub_old = STATUS_UPDATED" "f_updated_time sub_old \<noteq> 0"
    "f_updated_time sub_old + 24 * 60 * 60 < 91000" "f_bangumi_name sub_old = ''Show A''"
    by (simp_all add: sub_old_def sub_a_def)
  have b: "f_status sub_b = STATUS_UPDATED" "f_updated_time sub_b = 91000 - 60 * 60"
    "f_bangumi_name sub_b = ''Show B''"
    by (simp_all add: sub_b_def)
  from mark_followed_expires[OF d, of sub_old 91000] a
  have 1: "Followed_get (mark_followed 91000 [sub_old, sub_b]) ''Show A'' =
     Some (sub_old\<lparr>f_status := STATUS_FOLLOWED\<rparr>)" by simp
  from mark_followed_expires[OF d, of sub_b 91000] b
  have 2: "Followed_get (mark_followed 91000 [sub_old, sub_b]) ''Show B'' = Some sub_b" by simp
  from d a b 1 2 show ?thesis by simp
qed

text \<open>
  The claim as stated fails for an \<open>updated_time\<close> of \<open>0\<close>, the value of a row that
  \<open>status_\<close> moved to \<open>UPDATED\<close> without an update: the guard \<open>follow.updated_time and ...\<close>
  of line 310 skips it, however long ago the time \<open>0\<close> is.
\<close>

theorem mark_followed_expires_counterexample:
  "snd (status_change db_a ''Show A'' STATUS_UPDATED) = db_a\<lparr>followed_table := [sub_never]\<rparr> \<and>
   f_status sub_never = STATUS_UPDATED \<and>
   f_updated_time sub_never + 24 * 60 * 60 < 91000 \<and>
   mark_followed 91000 [sub_never] = [sub_never] \<and>
   STATUS_UPDATED \<noteq> STATUS_FOLLOWED"
  by (simp add: status_change_def mark_followed_def get_all_followed_def stale_def db_a_def
      sub_never_def sub_a_def Followed_get_def FOLLOWED_STATUS_def STATUS_UPDATED_def
      STATUS_FOLLOWED_def STATUS_DELETED_def)

section \<open>The example of the spec, through \<open>update\<close>\<close>

text \<open>
  "Show A" followed at watermark 3, with episodes 4, 4 (another group) and 6 observed: a
  whole cycle with downloads leaves the watermark 6 and the status \<open>UPDATED\<close>, and hands
  one list to the downloader, the second episode 4 and episode 6.
\<close>

lemma update_show_a:
  "update env_a db_a [] True False =
     (None,
      db_a\<lparr>followed_table :=
             [sub_a\<lparr>f_episode := 6, f_status := STATUS_UPDATED, f_updated_time := 1000\<rparr>]\<rparr>,
      [[to_download ep4_alt, to_download ep6]])"
  by (simp add: update_def mark_followed_def mark_scripts_def get_all_followed_def stale_def
      update_one_def reconcile_def maximum_episode_def dict_of_def upto_rec1 db_a_def sub_a_def
      show_a_def env_a_def observed_a_def ep4_def ep4_alt_def ep6_def Bangumi_get_def
      Followed_get_def STATUS_FOLLOWED_def STATUS_DELETED_def)

end
